theory Spec2Isabelle
  imports
    Complex_Main
    "HOL-Library.Char_ord"
    "HOL-Library.List_Lexorder"
    "HOL-Library.Sublist"
    "HOL-Library.Log_Nat"
    "HOL-Library.Word"
    "HOL-Library.Multiset"
begin

section \<open>Strings and paths\<close>

text \<open>
  Python strings are modelled as \<^typ>\<open>string\<close>, one \<^typ>\<open>char\<close> per character, for the
  characters with codes below 256 (Latin-1). On these, \<open>str.lower\<close> maps \<open>A\<close> to \<open>Z\<close> and
  the capitals \<open>0xC0\<close> to \<open>0xDE\<close>, except the multiplication sign \<open>0xD7\<close>, to the character
  32 places further on, and leaves every other character as it is. The platform is
  POSIX: the path separator is \<open>/\<close> and \<open>os.path.normcase\<close> is the identity.
\<close>

definition lower_char :: "char \<Rightarrow> char" where
  "lower_char c =
     (if (CHR ''A'' \<le> c \<and> c \<le> CHR ''Z'') \<or> (CHR 0xC0 \<le> c \<and> c \<le> CHR 0xDE \<and> c \<noteq> CHR 0xD7)
      then char_of (of_char c + (32::nat))
      else c)"

definition lower :: "string \<Rightarrow> string" where
  "lower s = map lower_char s"

text \<open>
  The characters \<open>str.strip()\<close> removes, those with \<open>str.isspace\<close>: tab, LF, VT, FF, CR, FS,
  GS, RS, US, space, the next-line control \<open>0x85\<close> and the no-break space \<open>0xA0\<close>.
\<close>

definition is_space :: "char \<Rightarrow> bool" where
  "is_space c =
     (let n = (of_char c :: nat)
      in (9 \<le> n \<and> n \<le> 13) \<or> (28 \<le> n \<and> n \<le> 32) \<or> n = 0x85 \<or> n = 0xA0)"

definition strip :: "string \<Rightarrow> string" where
  "strip s = rev (dropWhile is_space (rev (dropWhile is_space s)))"

definition lstrip :: "char \<Rightarrow> string \<Rightarrow> string" where
  "lstrip c s = dropWhile (\<lambda>x. x = c) s"

text \<open>\<open>s.replace("\\", "/")\<close>\<close>

definition replace_backslash :: "string \<Rightarrow> string" where
  "replace_backslash s = map (\<lambda>c. if c = CHR 0x5C then CHR ''/'' else c) s"

text \<open>\<open>sep.join(parts)\<close>\<close>

fun join :: "string \<Rightarrow> string list \<Rightarrow> string" where
  "join sep [] = []"
| "join sep [x] = x"
| "join sep (x # y # ys) = x @ sep @ join sep (y # ys)"

text \<open>
  A path below the root is the list of its components (\<open>p.relative_to(root)\<close>); the root
  itself is \<open>[]\<close>. \<open>Path.name\<close> is the last component.
\<close>

type_synonym path = "string list"

definition name :: "path \<Rightarrow> string" where
  "name p = (if p = [] then [] else last p)"

text \<open>\<open>s.rfind(c)\<close>: the index of the last occurrence, \<open>None\<close> for Python's \<open>-1\<close>.\<close>

fun rfind :: "char \<Rightarrow> string \<Rightarrow> nat option" where
  "rfind c [] = None"
| "rfind c (x # xs) =
     (case rfind c xs of
        Some i \<Rightarrow> Some (Suc i)
      | None \<Rightarrow> if x = c then Some 0 else None)"

text \<open>
  \<open>PurePath.suffix\<close> (pathlib up to Python 3.13):
  \<open>i = name.rfind('.'); return name[i:] if 0 < i < len(name) - 1 else ''\<close>.
\<close>

definition suffix_of :: "path \<Rightarrow> string" where
  "suffix_of p =
     (case rfind (CHR ''.'') (name p) of
        None \<Rightarrow> []
      | Some i \<Rightarrow> if 0 < i \<and> Suc i < length (name p) then drop i (name p) else [])"

text \<open>\<open>p.suffix.lower().lstrip(".")\<close>\<close>

definition ext_of :: "path \<Rightarrow> string" where
  "ext_of p = lstrip (CHR ''.'') (lower (suffix_of p))"

text \<open>\<open>str(rel).replace("\\", "/")\<close> and its lowercase form.\<close>

definition rel_posix :: "path \<Rightarrow> string" where
  "rel_posix p = replace_backslash (join ''/'' p)"

definition rel_lower :: "path \<Rightarrow> string" where
  "rel_lower p = lower (rel_posix p)"


section \<open>The module's tables\<close>

definition DEFAULT_EXCLUDE_DIRS :: "string set" where
  "DEFAULT_EXCLUDE_DIRS =
     {''archive'',
      ''.git'', ''target'', ''.idea'', ''.vscode'', ''node_modules'', ''.venv'', ''.tox'',
      ''dist'', ''build'', ''.mypy_cache'', ''.pytest_cache'', ''__pycache__'', ''.cargo''}"

definition DEFAULT_EXTS :: "string set" where
  "DEFAULT_EXTS =
     {''wgsl'',
      ''rs'', ''toml'',
      ''json'', ''yml'', ''yaml'', ''cfg'', ''ini'', ''env''}"

definition DEFAULT_EXCLUDE_EXTS :: "string set" where
  "DEFAULT_EXCLUDE_EXTS =
     {''lock'',
      ''gitignore'',
      ''sh'', ''bash'', ''zsh'', ''ps1'', ''bat'', ''cmd'', ''makefile'', ''mk'', ''dockerfile'',
      ''html'', ''css'', ''scss'', ''js'', ''jsx'', ''ts'', ''tsx'',
      ''sql'', ''proto'', ''patch'', ''diff'', ''csv'', ''tsv'', ''xml'', ''svg'', ''gradle'',
      ''py'',
      ''exe'', ''dll'', ''so'', ''dylib'', ''a'', ''lib'', ''o'', ''obj'', ''pdb'', ''wasm'',
      ''zip'', ''tar'', ''gz'', ''tgz'', ''bz2'', ''tbz2'', ''xz'', ''7z'', ''rar'',
      ''png'', ''jpg'', ''jpeg'', ''gif'', ''webp'', ''bmp'', ''tiff'', ''tif'', ''ico'', ''icns'',
      ''psd'',
      ''ttf'', ''otf'', ''woff'', ''woff2'',
      ''mp3'', ''mp4'', ''m4a'', ''wav'', ''flac'', ''mov'', ''avi'', ''mkv'', ''webm'', ''ogg'',
      ''sqlite'', ''db'', ''rdb'', ''mdb'', ''accdb'', ''realm'',
      ''gcda'', ''gcno'', ''profraw'', ''profdata'',
      ''pdf'', ''doc'', ''docx'', ''ppt'', ''pptx'', ''xls'', ''xlsx'',
      ''ico'', ''icns'', ''map''}"

text \<open>The dictionary \<open>NAME_LANG_OVERRIDES\<close>, in the order of the source.\<close>

definition NAME_LANG_OVERRIDES :: "(string \<times> string) list" where
  "NAME_LANG_OVERRIDES =
     [(''dockerfile'', ''dockerfile''),
      (''makefile'', ''makefile''),
      (''license'', ''text''),
      (''cargo.toml'', ''toml''),
      (''cargo.lock'', ''text''),
      (''build.rs'', ''rust''),
      (''rust-toolchain'', ''text''),
      (''rustfmt.toml'', ''toml''),
      (''.gitignore'', ''gitignore''),
      (''.gitattributes'', ''text''),
      (''.editorconfig'', ''ini''),
      (''readme'', ''markdown''),
      (''readme.md'', ''markdown'')]"

text \<open>\<open>key in NAME_LANG_OVERRIDES\<close>\<close>

definition in_overrides :: "string \<Rightarrow> bool" where
  "in_overrides k = (k \<in> set (map fst NAME_LANG_OVERRIDES))"


section \<open>Shell-style matching: the standard library's \<open>fnmatch\<close>\<close>

text \<open>
  \<open>fnmatch.fnmatch(name, pat)\<close> of CPython 3.11 on POSIX: \<open>translate(pat)\<close> turns the pattern
  into a regular expression that must match the whole name. \<open>*\<close> matches any run of
  characters (the separator included), \<open>?\<close> one character, \<open>[...]\<close> a character set, a
  \<open>[\<close> with no closing \<open>]\<close> itself, every other character itself. \<open>translate\<close> merges
  consecutive \<open>*\<close>; here each is kept, and they match as one does.

  A pattern is translated into the items below. A set keeps the text that \<open>translate\<close> hands
  to the regular expression compiler, one \<open>cchar\<close> per character: \<open>Esc c\<close> is the escaped
  \<open>\c\<close>, \<open>Plain c\<close> the character as it stands.
\<close>

datatype cchar = Plain char | Esc char

fun ch :: "cchar \<Rightarrow> char" where
  "ch (Plain c) = c"
| "ch (Esc c) = c"

datatype gitem =
    Star
  | AnyChar
  | Lit char
  | Never
  | CharSet bool "(char \<times> char) list"

text \<open>
  The end of a bracket expression: \<open>j = i\<close>, skip a \<open>!\<close>, skip a \<open>]\<close>, then move to the next
  \<open>]\<close>. The result is \<open>pat[i:j]\<close> and the text after the closing bracket, or \<open>None\<close> when
  \<open>j >= n\<close>.
\<close>

definition find_close :: "string \<Rightarrow> (string \<times> string) option" where
  "find_close r =
     (let (a, r1) = (case r of c # cs \<Rightarrow> if c = CHR ''!'' then ([c], cs) else ([], r) | [] \<Rightarrow> ([], r));
          (b, r2) = (case r1 of c # cs \<Rightarrow> if c = CHR '']'' then ([c], cs) else ([], r1) | [] \<Rightarrow> ([], r1))
      in if CHR '']'' \<in> set r2
         then Some (a @ b @ takeWhile (\<lambda>c. c \<noteq> CHR '']'') r2,
                    tl (dropWhile (\<lambda>c. c \<noteq> CHR '']'') r2))
         else None)"

text \<open>
  The loop that cuts \<open>stuff\<close> at its range hyphens. \<open>pat.find('-', k, j)\<close> starts at
  \<open>k = i + 1\<close> (\<open>i + 2\<close> after a \<open>!\<close>) and, after a hyphen at \<open>k\<close>, at \<open>k + 3\<close>: \<open>skip\<close> counts
  the characters still to pass before a hyphen cuts again, \<open>cur\<close> is the chunk being read.
  The last element is \<open>pat[i:j]\<close> after the loop, possibly empty.
\<close>

fun split_chunks :: "nat \<Rightarrow> string \<Rightarrow> string \<Rightarrow> string list" where
  "split_chunks skip cur [] = [cur]"
| "split_chunks skip cur (c # cs) =
     (if skip = 0 \<and> c = CHR ''-'' then cur # split_chunks 2 [] cs
      else split_chunks (skip - 1) (cur @ [c]) cs)"

text \<open>\<open>if chunk: chunks.append(chunk) else: chunks[-1] += '-'\<close>\<close>

definition close_chunks :: "string list \<Rightarrow> string list" where
  "close_chunks cs =
     (if 2 \<le> length cs \<and> last cs = []
      then butlast (butlast cs) @ [last (butlast cs) @ ''-'']
      else cs)"

text \<open>
  Removing the empty ranges, from the last chunk down to the second:
  \<open>if chunks[k-1][-1] > chunks[k][0]: chunks[k-1] = chunks[k-1][:-1] + chunks[k][1:]; del chunks[k]\<close>.
\<close>

fun merge_chunks :: "string list \<Rightarrow> string list" where
  "merge_chunks [] = []"
| "merge_chunks (c # cs) =
     (case merge_chunks cs of
        [] \<Rightarrow> [c]
      | d # ds \<Rightarrow> if c \<noteq> [] \<and> d \<noteq> [] \<and> last c > hd d then (butlast c @ tl d) # ds else c # d # ds)"

text \<open>
  The escapes: a backslash and a hyphen inside a chunk, then \<open>&\<close>, \<open>~\<close> and \<open>|\<close>; the chunks
  are joined with the hyphens that make the ranges.
\<close>

definition esc_chunk :: "string \<Rightarrow> cchar list" where
  "esc_chunk s =
     map (\<lambda>c. if c \<in> {CHR 0x5C, CHR ''-'', CHR ''&'', CHR ''~'', CHR ''|''} then Esc c else Plain c) s"

definition esc_plain :: "string \<Rightarrow> cchar list" where
  "esc_plain s =
     map (\<lambda>c. if c \<in> {CHR 0x5C, CHR ''&'', CHR ''~'', CHR ''|''} then Esc c else Plain c) s"

fun join_chunks :: "cchar list list \<Rightarrow> cchar list" where
  "join_chunks [] = []"
| "join_chunks [x] = x"
| "join_chunks (x # y # ys) = x @ [Plain (CHR ''-'')] @ join_chunks (y # ys)"

definition set_text :: "string \<Rightarrow> cchar list" where
  "set_text stuff =
     (if CHR ''-'' \<notin> set stuff then esc_plain stuff
      else join_chunks (map esc_chunk (merge_chunks (close_chunks
             (split_chunks (case stuff of c # cs \<Rightarrow> if c = CHR ''!'' then 2 else 1 | [] \<Rightarrow> 1)
                [] stuff)))))"

text \<open>
  The members of a set as the regular expression compiler reads them: a character, or a
  range when an unescaped hyphen and a further character follow; a hyphen at the end is
  itself.
\<close>

fun class_items :: "cchar list \<Rightarrow> (char \<times> char) list" where
  "class_items [] = []"
| "class_items [a] = [(ch a, ch a)]"
| "class_items (a # b # rest) =
     (if b = Plain (CHR ''-'') then
        (case rest of
           [] \<Rightarrow> [(ch a, ch a), (CHR ''-'', CHR ''-'')]
         | c # rest' \<Rightarrow> (ch a, ch c) # class_items rest')
      else (ch a, ch a) # class_items (b # rest))"

text \<open>
  What \<open>translate\<close> adds for \<open>stuff\<close>: \<open>(?!)\<close> for the empty text, \<open>.\<close> for \<open>!\<close>, a negated
  set after a leading \<open>!\<close>, and a leading \<open>^\<close> or \<open>[\<close> escaped.
\<close>

definition bracket_item :: "string \<Rightarrow> gitem" where
  "bracket_item stuff =
     (case set_text stuff of
        [] \<Rightarrow> Never
      | t # ts \<Rightarrow>
          if t = Plain (CHR ''!'') then (if ts = [] then AnyChar else CharSet True (class_items ts))
          else CharSet False (class_items (t # ts)))"

function translate :: "string \<Rightarrow> gitem list" where
  "translate [] = []"
| "translate (c # cs) =
     (if c = CHR ''*'' then Star # translate cs
      else if c = CHR ''?'' then AnyChar # translate cs
      else if c = CHR ''['' then
        (case find_close cs of
           None \<Rightarrow> Lit c # translate cs
         | Some (stuff, rest) \<Rightarrow> bracket_item stuff # translate rest)
      else Lit c # translate cs)"
  by pat_completeness auto

termination translate
proof -
  have dw: "length (tl (dropWhile P xs)) \<le> length xs" for P and xs :: string
    using length_dropWhile_le [of P xs] by (simp add: le_diff_conv)
  have shorter: "length rest \<le> length r" if "find_close r = Some (stuff, rest)"
    for r stuff rest
    using that dw [of "\<lambda>c. c \<noteq> CHR '']''"]
    by (auto simp: find_close_def Let_def le_Suc_eq split: list.splits if_splits
             intro: order_trans [OF dw] le_SucI)
  show ?thesis
    by (relation "measure length") (auto dest: shorter simp: less_Suc_eq_le)
qed

definition in_class :: "char \<Rightarrow> (char \<times> char) list \<Rightarrow> bool" where
  "in_class c items = list_ex (\<lambda>(lo, hi). lo \<le> c \<and> c \<le> hi) items"

fun item_matches :: "gitem \<Rightarrow> char \<Rightarrow> bool" where
  "item_matches Star c = True"
| "item_matches AnyChar c = True"
| "item_matches (Lit x) c = (c = x)"
| "item_matches Never c = False"
| "item_matches (CharSet neg items) c = (in_class c items \<noteq> neg)"

fun glob_match :: "gitem list \<Rightarrow> string \<Rightarrow> bool" where
  "glob_match [] s = (s = [])"
| "glob_match (Star # ts) [] = glob_match ts []"
| "glob_match (Star # ts) (c # cs) = (glob_match ts (c # cs) \<or> glob_match (Star # ts) cs)"
| "glob_match (t # ts) [] = False"
| "glob_match (t # ts) (c # cs) = (item_matches t c \<and> glob_match ts cs)"

definition fnmatch :: "string \<Rightarrow> string \<Rightarrow> bool" where
  "fnmatch nm pat = glob_match (translate pat) nm"


section \<open>The selection engine\<close>

text \<open>
  The parameters of \<open>iter_files\<close> and the size limit of \<open>main\<close>. \<open>max_bytes\<close> is a Python
  \<open>int\<close> (\<open>argparse\<close> with \<open>type=int\<close>), so it may be negative.
\<close>

record config =
  exclude_dirs :: "string set"
  include_globs :: "string list"
  ignore_globs :: "string list"
  ignore_exts :: "string set"
  exts :: "string set"
  prefer_include :: bool
  follow_symlinks :: bool
  max_bytes :: int

text \<open>
  \<open>_match_any_glob\<close>: each pattern is normalised (backslashes to slashes, lowercase,
  leading slashes stripped) and tried in order.
\<close>

definition match_any_glob :: "string \<Rightarrow> string list \<Rightarrow> bool" where
  "match_any_glob rel_posix_lower patterns =
     list_ex (\<lambda>pat.
        let p = lower (replace_backslash pat);
            p' = (if p \<noteq> [] \<and> hd p = CHR ''/'' then lstrip (CHR ''/'') p else p)
        in fnmatch rel_posix_lower p') patterns"

definition should_include_file :: "path \<Rightarrow> string set \<Rightarrow> string set \<Rightarrow> bool" where
  "should_include_file p exts' include_names =
     (if lower (name p) \<in> include_names then True
      else if ext_of p \<in> exts' then True
      else if in_overrides (lower (name p)) then True
      else False)"

text \<open>The first lines of \<open>iter_files\<close>.\<close>

definition exclude_dirs_norm :: "config \<Rightarrow> string set" where
  "exclude_dirs_norm cfg = lower ` exclude_dirs cfg"

definition include_names :: "string set" where
  "include_names = lower ` set (map fst NAME_LANG_OVERRIDES)"

definition inc_globs :: "config \<Rightarrow> string list" where
  "inc_globs cfg = filter (\<lambda>g. g \<noteq> []) (map strip (include_globs cfg))"

definition ign_globs :: "config \<Rightarrow> string list" where
  "ign_globs cfg = filter (\<lambda>g. g \<noteq> []) (map strip (ignore_globs cfg))"

text \<open>
  The body of the loop over \<open>filenames\<close> in \<open>iter_files\<close>, for the file with root-relative
  path \<open>rel\<close>. \<open>Include\<close> is a \<open>yield\<close>; the other results name the way the file is left
  out: the left or the right operand of the \<open>or\<close> that guards the first \<open>continue\<close>, or the
  end of the body.
\<close>

datatype verdict = Include | ExcludeByGlob | ExcludeByExtension | ExcludeNoMatch

definition select :: "config \<Rightarrow> path \<Rightarrow> verdict" where
  "select cfg rel =
     (let rl = rel_lower rel in
      if prefer_include cfg \<and> inc_globs cfg \<noteq> [] \<and> match_any_glob rl (inc_globs cfg)
      then Include
      else
        let ext = ext_of rel in
        if ign_globs cfg \<noteq> [] \<and> match_any_glob rl (ign_globs cfg) then ExcludeByGlob
        else if ext \<noteq> [] \<and> ext \<in> ignore_exts cfg then ExcludeByExtension
        else if \<not> prefer_include cfg \<and> inc_globs cfg \<noteq> [] \<and> match_any_glob rl (inc_globs cfg)
        then Include
        else if should_include_file rel (exts cfg) include_names then Include
        else ExcludeNoMatch)"

text \<open>The defaults of the command line.\<close>

definition default_config :: config where
  "default_config =
     \<lparr>exclude_dirs = DEFAULT_EXCLUDE_DIRS, include_globs = [], ignore_globs = [],
      ignore_exts = DEFAULT_EXCLUDE_EXTS, exts = DEFAULT_EXTS, prefer_include = False,
      follow_symlinks = False, max_bytes = 2000000\<rparr>"


section \<open>The tree walk\<close>

text \<open>
  The file system is what the program can ask of it. \<open>scandir p\<close> lists the directory at
  the root-relative path \<open>p\<close> (\<open>None\<close>: \<open>OSError\<close>); an entry carries its name, whether it is
  a directory once links are followed (\<open>entry.is_dir()\<close>) and whether it is a symbolic link
  (\<open>os.path.islink\<close>). \<open>stat_size\<close> is \<open>fp.stat().st_size\<close>, \<open>open_rb\<close> the bytes read by
  \<open>path.open("rb")\<close>, \<open>read_text\<close> the result of \<open>fp.read_text\<close>; \<open>None\<close> is a raised
  exception.
\<close>

record dirent =
  d_name :: string
  d_is_dir :: bool
  d_is_link :: bool

record filesystem =
  scandir :: "path \<Rightarrow> dirent list option"
  stat_size :: "path \<Rightarrow> nat option"
  open_rb :: "path \<Rightarrow> 8 word list option"
  read_text :: "path \<Rightarrow> string option"

text \<open>
  One directory of \<open>os.walk(root, followlinks=follow_symlinks)\<close> with the pruning that
  \<open>iter_files\<close> does on \<open>dirnames\<close> before the walk goes on: the directories to walk
  next, and the files of this directory. A directory that cannot be listed gives neither
  (\<open>onerror\<close> is \<open>None\<close>).
\<close>

definition visit :: "filesystem \<Rightarrow> config \<Rightarrow> path \<Rightarrow> path list \<times> path list" where
  "visit fs cfg dirpath =
     (case scandir fs dirpath of
        None \<Rightarrow> ([], [])
      | Some entries \<Rightarrow>
          let dirnames = map d_name (filter d_is_dir entries);
              filenames = map d_name (filter (\<lambda>e. \<not> d_is_dir e) entries);
              kept = filter (\<lambda>d. lower d \<notin> exclude_dirs_norm cfg) dirnames;
              is_link = (\<lambda>d. list_ex (\<lambda>e. d_name e = d \<and> d_is_link e) entries)
          in (map (\<lambda>d. dirpath @ [d]) (filter (\<lambda>d. follow_symlinks cfg \<or> \<not> is_link d) kept),
              map (\<lambda>f. dirpath @ [f]) filenames))"

text \<open>
  The walk, top down: the stack holds the directories still to visit, the next one first.
  The function is partial: \<open>None\<close> is a walk that never comes to an end by itself. What
  stops a walk from outside is left to the file system: a path that the operating system
  does not list (too many links to follow, too long a path) has \<open>scandir p = None\<close>. The
  interpreter's recursion limit is not modelled.
\<close>

partial_function (option) walk_loop ::
  "(path \<Rightarrow> path list \<times> path list) \<Rightarrow> path list \<Rightarrow> path list \<Rightarrow> path list option" where
  "walk_loop step stack acc =
     (case stack of
        [] \<Rightarrow> Some acc
      | dirpath # rest \<Rightarrow>
          walk_loop step (fst (step dirpath) @ rest) (acc @ snd (step dirpath)))"

text \<open>Every file the loop over \<open>filenames\<close> looks at, in the order of the walk.\<close>

definition candidates :: "config \<Rightarrow> filesystem \<Rightarrow> path list option" where
  "candidates cfg fs = walk_loop (visit fs cfg) [[]] []"

text \<open>\<open>list(iter_files(...))\<close>: the candidates that are yielded.\<close>

definition iter_files :: "config \<Rightarrow> filesystem \<Rightarrow> path list option" where
  "iter_files cfg fs = map_option (filter (\<lambda>p. select cfg p = Include)) (candidates cfg fs)"


section \<open>The binary sniffer\<close>

text \<open>
  \<open>nontext / max(1, len(chunk)) > 0.30\<close> is a comparison of two IEEE 754 binary64 numbers:
  the quotient of two integers, correctly rounded, and the double nearest to the decimal
  \<open>0.30\<close>. A double is modelled by the rational it denotes. \<open>binade n d\<close> is the exponent
  \<open>e\<close> with \<open>2^e \<le> n/d < 2^(e+1)\<close>; the quotient is rounded to a multiple of \<open>2^(e-52)\<close>,
  a tie to the even one. The quotients of the sniffer lie between \<open>0\<close> and \<open>1\<close>, far from
  overflow and from the subnormal range.
\<close>

definition round_half_even :: "rat \<Rightarrow> int" where
  "round_half_even x =
     (let f = \<lfloor>x\<rfloor>; r = x - of_int f
      in if r < 1 / 2 then f else if 1 / 2 < r then f + 1 else if even f then f else f + 1)"

definition binade :: "nat \<Rightarrow> nat \<Rightarrow> int" where
  "binade n d =
     (let k = bitlen (int n) - bitlen (int d)
      in if (2::rat) powi k * of_nat d \<le> of_nat n then k else k - 1)"

definition truediv :: "nat \<Rightarrow> nat \<Rightarrow> rat" where
  "truediv n d =
     (if n = 0 then 0
      else let u = (2::rat) powi (binade n d - 52)
           in of_int (round_half_even (of_nat n / of_nat d / u)) * u)"

text \<open>The literal \<open>0.30\<close>: the double nearest to \<open>3/10\<close>.\<close>

definition float_0_30 :: rat where
  "float_0_30 = truediv 3 10"

text \<open>\<open>bytearray({7, 8, 9, 10, 12, 13, 27} | set(range(0x20, 0x7F)))\<close>\<close>

definition text_chars :: "8 word set" where
  "text_chars = {7, 8, 9, 10, 12, 13, 27} \<union> {b. 0x20 \<le> b \<and> b < 0x7F}"

text \<open>\<open>sum(b not in text_chars for b in chunk)\<close>\<close>

definition nontext :: "8 word list \<Rightarrow> nat" where
  "nontext chunk = length (filter (\<lambda>b. b \<notin> text_chars) chunk)"

text \<open>The part of \<open>is_probably_binary\<close> after the read, on the bytes read.\<close>

definition sniff :: "8 word list \<Rightarrow> bool" where
  "sniff chunk =
     (if chunk = [] then False
      else if 0 \<in> set chunk then True
      else truediv (nontext chunk) (max 1 (length chunk)) > float_0_30)"

text \<open>\<open>f.read(sniff_bytes)\<close> gives at most \<open>sniff_bytes\<close> bytes; a file that cannot be
  opened or read counts as binary.\<close>

definition is_probably_binary :: "filesystem \<Rightarrow> path \<Rightarrow> nat \<Rightarrow> bool" where
  "is_probably_binary fs p sniff_bytes =
     (case open_rb fs p of
        None \<Rightarrow> True
      | Some data \<Rightarrow> sniff (take sniff_bytes data))"


section \<open>The code fence\<close>

text \<open>
  \<open>re.findall(r"`+", content)\<close>: the maximal runs of backticks, from left to right;
  \<open>cur\<close> is the run being read. The backtick is the character \<open>0x60\<close>.
\<close>

definition tick :: char where
  "tick = CHR 0x60"

fun tick_runs :: "string \<Rightarrow> string \<Rightarrow> string list" where
  "tick_runs cur [] = (if cur = [] then [] else [cur])"
| "tick_runs cur (c # cs) =
     (if c = tick then tick_runs (cur @ [c]) cs
      else (if cur = [] then [] else [cur]) @ tick_runs [] cs)"

text \<open>\<open>max((len(r) for r in runs), default=0)\<close>\<close>

definition longest_run :: "string \<Rightarrow> nat" where
  "longest_run content = foldr max (map length (tick_runs [] content)) 0"

definition choose_code_fence :: "string \<Rightarrow> string" where
  "choose_code_fence content =
     (let longest = longest_run content
      in replicate (if longest \<ge> 3 then longest + 2 else 3) tick)"


section \<open>The run\<close>

text \<open>
  \<open>files.sort(key=...)\<close>: Python's sort is stable and compares the keys, strings, by their
  characters' codes; \<^const>\<open>sort_key\<close> is a stable insertion sort and the order on strings
  is the lexicographic order of the characters' codes.
\<close>

definition sort_files :: "path list \<Rightarrow> path list" where
  "sort_files files = sort_key rel_lower files"

text \<open>
  The counters of \<open>main\<close>, with two lists the program does not keep: \<open>opened\<close>, the files it
  has tried to open, in order, and \<open>emitted\<close>, the files whose block it has written. The
  text of the output is not modelled, and writing to it is taken to succeed.
\<close>

record run_state =
  written :: nat
  skipped_binary :: nat
  skipped_too_large :: nat
  skipped_errors :: nat
  opened :: "path list"
  emitted :: "path list"

definition init_state :: run_state where
  "init_state =
     \<lparr>written = 0, skipped_binary = 0, skipped_too_large = 0, skipped_errors = 0,
      opened = [], emitted = []\<rparr>"

text \<open>The body of the loop \<open>for fp in files\<close>, with its \<open>try\<close> and \<open>except\<close>.\<close>

definition process_file :: "config \<Rightarrow> filesystem \<Rightarrow> run_state \<Rightarrow> path \<Rightarrow> run_state" where
  "process_file cfg fs st fp =
     (case stat_size fs fp of
        None \<Rightarrow> st\<lparr>skipped_errors := skipped_errors st + 1\<rparr>
      | Some sz \<Rightarrow>
          if max_bytes cfg > 0 \<and> int sz > max_bytes cfg
          then st\<lparr>skipped_too_large := skipped_too_large st + 1\<rparr>
          else
            let st1 = st\<lparr>opened := opened st @ [fp]\<rparr> in
            if is_probably_binary fs fp 4096
            then st1\<lparr>skipped_binary := skipped_binary st1 + 1\<rparr>
            else
              let st2 = st1\<lparr>opened := opened st1 @ [fp]\<rparr> in
              (case read_text fs fp of
                 None \<Rightarrow> st2\<lparr>skipped_errors := skipped_errors st2 + 1\<rparr>
               | Some content \<Rightarrow>
                   st2\<lparr>written := written st2 + 1, emitted := emitted st2 @ [fp]\<rparr>))"

text \<open>
  \<open>main\<close> on an existing root directory: the walk, the sort, the loop over the files.
  \<open>None\<close> is a run whose walk does not return.
\<close>

definition main :: "config \<Rightarrow> filesystem \<Rightarrow> run_state option" where
  "main cfg fs =
     (case iter_files cfg fs of
        None \<Rightarrow> None
      | Some files \<Rightarrow> Some (foldl (process_file cfg fs) init_state (sort_files files)))"


section \<open>Trees and configurations of the examples\<close>

text \<open>Directory entries: a file, a directory, a symbolic link to a directory.\<close>

definition file_entry :: "string \<Rightarrow> dirent" where
  "file_entry n = \<lparr>d_name = n, d_is_dir = False, d_is_link = False\<rparr>"

definition dir_entry :: "string \<Rightarrow> dirent" where
  "dir_entry n = \<lparr>d_name = n, d_is_dir = True, d_is_link = False\<rparr>"


text \<open>
  The tree of the specification's scenario: \<open>src/main.rs\<close>, \<open>build/output.o\<close>,
  \<open>Cargo.lock\<close>, \<open>README\<close> and \<open>notes.bin\<close>; every file has three bytes.
\<close>

definition scenario_fs :: filesystem where
  "scenario_fs =
     \<lparr>scandir = (\<lambda>p.
        if p = [] then
          Some [file_entry ''notes.bin'', dir_entry ''src'', file_entry ''README'',
                dir_entry ''build'', file_entry ''Cargo.lock'']
        else if p = [''src''] then Some [file_entry ''main.rs'']
        else if p = [''build''] then Some [file_entry ''output.o'']
        else None),
      stat_size = (\<lambda>p. Some 3),
      open_rb = (\<lambda>p. if p = [''notes.bin''] then Some [0, 1, 2] else Some [0x61, 0x62, 0x0A]),
      read_text = (\<lambda>p. Some [CHR ''a'', CHR ''b'', CHR 0x0A])\<rparr>"

text \<open>
  The configuration of the second scenario: an include glob, \<open>prefer_include\<close> and a broader
  ignore glob.
\<close>

definition generated_ts_config :: config where
  "generated_ts_config =
     default_config\<lparr>include_globs := [''**/*.generated.ts''], prefer_include := True,
       ignore_globs := [''**/*.ts'']\<rparr>"

text \<open>A configuration whose extension sets hold the empty string.\<close>

definition empty_ext_config :: config where
  "empty_ext_config = default_config\<lparr>ignore_exts := {[]}, exts := DEFAULT_EXTS \<union> {[]}\<rparr>"

text \<open>A buffer of \<open>a\<close> letters \<open>A\<close> followed by \<open>b\<close> bytes \<open>0x80\<close>.\<close>

definition buffer :: "nat \<Rightarrow> nat \<Rightarrow> 8 word list" where
  "buffer a b = replicate a 0x41 @ replicate b 0x80"

text \<open>A configuration whose include glob asks for the files of the excluded \<open>build\<close>.\<close>

definition build_glob_config :: config where
  "build_glob_config = default_config\<lparr>include_globs := [''build/*''], prefer_include := True\<rparr>"

text \<open>
  A directory with the empty files \<open>a.rs\<close> and \<open>A.rs\<close>, listed in this order, and the same
  directory listed the other way round.
\<close>

definition case_fs :: filesystem where
  "case_fs =
     \<lparr>scandir = (\<lambda>p. if p = [] then Some [file_entry ''a.rs'', file_entry ''A.rs''] else None),
      stat_size = (\<lambda>p. Some 0),
      open_rb = (\<lambda>p. Some []),
      read_text = (\<lambda>p. Some [])\<rparr>"

definition swapped_case_fs :: filesystem where
  "swapped_case_fs =
     \<lparr>scandir = (\<lambda>p. if p = [] then Some [file_entry ''A.rs'', file_entry ''a.rs''] else None),
      stat_size = (\<lambda>p. Some 0),
      open_rb = (\<lambda>p. Some []),
      read_text = (\<lambda>p. Some [])\<rparr>"

text \<open>A tree with a directory named \<open>e\<close> with an acute accent, \<open>0xE9\<close>.\<close>

definition accent_fs :: filesystem where
  "accent_fs =
     \<lparr>scandir = (\<lambda>p.
        if p = [] then Some [dir_entry [CHR 0xE9], file_entry ''a.rs'']
        else if p = [[CHR 0xE9]] then Some [file_entry ''b.rs'']
        else None),
      stat_size = (\<lambda>p. Some 0),
      open_rb = (\<lambda>p. Some []),
      read_text = (\<lambda>p. Some [])\<rparr>"




text \<open>A tree whose directory \<open>secret\<close> cannot be listed.\<close>

definition locked_fs :: filesystem where
  "locked_fs =
     \<lparr>scandir = (\<lambda>p.
        if p = [] then Some [dir_entry ''secret'', file_entry ''main.rs'']
        else None),
      stat_size = (\<lambda>p. Some 3),
      open_rb = (\<lambda>p. Some [0x61, 0x62, 0x0A]),
      read_text = (\<lambda>p. Some [CHR ''a'', CHR ''b'', CHR 0x0A])\<rparr>"

text \<open>
  A measure for the termination of the walk: the number of directories it visits below
  \<open>p\<close> when it goes \<open>n\<close> levels deep.
\<close>

fun cost :: "(path \<Rightarrow> path list \<times> path list) \<Rightarrow> nat \<Rightarrow> path \<Rightarrow> nat" where
  "cost step 0 p = 1"
| "cost step (Suc n) p = Suc (sum_list (map (cost step n) (fst (step p))))"


section \<open>Unfolding the walk\<close>

lemma walk_loop_Nil: "walk_loop step [] acc = Some acc"
  by (subst walk_loop.simps) simp

lemma walk_loop_Cons:
  "walk_loop step (d # rest) acc = walk_loop step (fst (step d) @ rest) (acc @ snd (step d))"
  by (subst walk_loop.simps) simp

lemma match_any_glob_Nil: "match_any_glob rl [] = False"
  by (simp add: match_any_glob_def)

text \<open>
  Two facts about the loop: an invariant of the stack carries over to the files found, and
  a walk that finds no directory beyond some depth returns.
\<close>

lemma walk_loop_invariant:
  assumes run: "walk_loop step stack acc = Some r"
    and step: "\<And>p. I p \<Longrightarrow> (\<forall>q\<in>set (fst (step p)). I q) \<and> (\<forall>f\<in>set (snd (step p)). Q f)"
    and stack: "\<forall>p\<in>set stack. I p"
    and acc: "\<forall>f\<in>set acc. Q f"
  shows "\<forall>f\<in>set r. Q f"
proof -
  have "step = step \<longrightarrow> (\<forall>p\<in>set stack. I p) \<longrightarrow> (\<forall>f\<in>set acc. Q f) \<longrightarrow> (\<forall>f\<in>set r. Q f)"
  proof (rule walk_loop.raw_induct [where P = "\<lambda>s st a y.
      s = step \<longrightarrow> (\<forall>p\<in>set st. I p) \<longrightarrow> (\<forall>f\<in>set a. Q f) \<longrightarrow> (\<forall>f\<in>set y. Q f)"])
    show "walk_loop step stack acc = Some r"
      by (rule run)
  next
    fix loop s st a y
    assume IH: "\<And>s st a y. loop s st a = Some y \<Longrightarrow>
        s = step \<longrightarrow> (\<forall>p\<in>set st. I p) \<longrightarrow> (\<forall>f\<in>set a. Q f) \<longrightarrow> (\<forall>f\<in>set y. Q f)"
      and eq: "(case st of [] \<Rightarrow> Some a
         | dirpath # rest \<Rightarrow> loop s (fst (s dirpath) @ rest) (a @ snd (s dirpath))) = Some y"
    show "s = step \<longrightarrow> (\<forall>p\<in>set st. I p) \<longrightarrow> (\<forall>f\<in>set a. Q f) \<longrightarrow> (\<forall>f\<in>set y. Q f)"
    proof (cases st)
      case Nil
      with eq show ?thesis by auto
    next
      case (Cons p rest)
      with eq have "loop s (fst (s p) @ rest) (a @ snd (s p)) = Some y"
        by simp
      from IH [OF this] show ?thesis
        using Cons step [of p] by auto
    qed
  qed
  with stack acc show ?thesis by blast
qed

lemma cost_nonzero [simp]: "cost step n p \<noteq> 0"
  by (cases n) auto



lemma visit_kept:
  "q \<in> set (fst (visit fs cfg p)) \<Longrightarrow> \<exists>d. q = p @ [d] \<and> lower d \<notin> exclude_dirs_norm cfg"
  by (auto simp: visit_def Let_def split: option.splits)

lemma visit_files: "f \<in> set (snd (visit fs cfg p)) \<Longrightarrow> butlast f = p"
  by (auto simp: visit_def Let_def split: option.splits)

lemma candidates_not_below_excluded:
  assumes "candidates cfg fs = Some cands"
  shows "\<forall>f\<in>set cands. \<forall>d\<in>set (butlast f). lower d \<notin> exclude_dirs_norm cfg"
proof (rule walk_loop_invariant [where I = "\<lambda>p. \<forall>d\<in>set p. lower d \<notin> exclude_dirs_norm cfg"])
  show "walk_loop (visit fs cfg) [[]] [] = Some cands"
    using assms by (simp add: candidates_def)
  show "(\<forall>q\<in>set (fst (visit fs cfg p)). \<forall>d\<in>set q. lower d \<notin> exclude_dirs_norm cfg) \<and>
        (\<forall>f\<in>set (snd (visit fs cfg p)). \<forall>d\<in>set (butlast f). lower d \<notin> exclude_dirs_norm cfg)"
    if "\<forall>d\<in>set p. lower d \<notin> exclude_dirs_norm cfg" for p
    using that by (auto dest!: visit_kept visit_files)
qed auto


section \<open>The rounded comparison is the exact one\<close>

text \<open>
  For a divisor up to \<open>2^52\<close> the comparison of the two doubles agrees with the comparison
  of the exact quotient with \<open>3/10\<close>: the quotient differs from \<open>3/10\<close> by at least
  \<open>1/(10 d)\<close>, far more than the rounding moves either number.
\<close>

lemma round_half_even_le: "x < of_int m + 1 / 2 \<Longrightarrow> round_half_even x \<le> m"
  unfolding round_half_even_def Let_def
  by (auto simp: not_less) linarith+

lemma round_half_even_ge: "of_int m - 1 / 2 < x \<Longrightarrow> m \<le> round_half_even x"
  unfolding round_half_even_def Let_def
  by (auto simp: not_less) linarith+

lemma float_0_30_value: "float_0_30 = 5404319552844595 / 18014398509481984"
  unfolding float_0_30_def by code_simp

lemma bitlen_powi:
  assumes "0 < (n::nat)"
  shows "(2::rat) powi (bitlen (int n) - 1) \<le> of_nat n" and "of_nat n < (2::rat) powi bitlen (int n)"
proof -
  from assms have pos: "0 < int n" by simp
  from bitlen_bounds [OF pos] have lo: "2 ^ nat (bitlen (int n) - 1) \<le> int n"
    and hi: "int n < 2 ^ nat (bitlen (int n))" by auto
  have b1: "1 \<le> bitlen (int n)"
    using pos by (simp add: bitlen_alt_def)
  from lo have "(of_int (2 ^ nat (bitlen (int n) - 1)) :: rat) \<le> of_int (int n)"
    by (simp only: of_int_le_iff)
  then show "(2::rat) powi (bitlen (int n) - 1) \<le> of_nat n"
    using b1 by (simp add: power_int_def)
  from hi have "(of_int (int n) :: rat) < of_int (2 ^ nat (bitlen (int n)))"
    by (simp only: of_int_less_iff)
  then show "of_nat n < (2::rat) powi bitlen (int n)"
    using b1 by (simp add: power_int_def)
qed

lemma binade_bounds:
  assumes n: "0 < n" and d: "0 < d"
  shows "(2::rat) powi binade n d * of_nat d \<le> of_nat n"
    and "of_nat n < (2::rat) powi (binade n d + 1) * of_nat d"
proof -
  define k where "k = bitlen (int n) - bitlen (int d)"
  have dpos: "(0::rat) < of_nat d" using d by simp
  have up: "of_nat n < (2::rat) powi (k + 1) * of_nat d"
  proof -
    have "(2::rat) powi (k + 1) * 2 powi (bitlen (int d) - 1) = 2 powi bitlen (int n)"
      by (simp add: k_def flip: power_int_add)
    moreover have "(2::rat) powi (k + 1) * 2 powi (bitlen (int d) - 1) \<le> 2 powi (k + 1) * of_nat d"
      using bitlen_powi(1) [OF d] by (intro mult_left_mono) auto
    ultimately show ?thesis
      using bitlen_powi(2) [OF n] by linarith
  qed
  have low: "(2::rat) powi (k - 1) * of_nat d \<le> of_nat n"
  proof -
    have "(2::rat) powi (k - 1) * 2 powi bitlen (int d) = 2 powi (bitlen (int n) - 1)"
      by (simp add: k_def flip: power_int_add)
    moreover have "(2::rat) powi (k - 1) * of_nat d \<le> 2 powi (k - 1) * 2 powi bitlen (int d)"
      using bitlen_powi(2) [OF d] by (intro mult_left_mono) auto
    ultimately show ?thesis
      using bitlen_powi(1) [OF n] by linarith
  qed
  show "(2::rat) powi binade n d * of_nat d \<le> of_nat n"
    using low by (auto simp: binade_def Let_def k_def)
  show "of_nat n < (2::rat) powi (binade n d + 1) * of_nat d"
    using up by (auto simp: binade_def Let_def k_def not_le)
qed


lemma truediv_bounds:
  assumes n: "0 < n" and d: "0 < d"
  shows "(2::rat) powi binade n d \<le> truediv n d" and "truediv n d \<le> (2::rat) powi (binade n d + 1)"
proof -
  define e where "e = binade n d"
  define u where "u = (2::rat) powi (e - 52)"
  define q where "q = (of_nat n :: rat) / of_nat d / u"
  have upos: "0 < u" by (simp add: u_def)
  have dpos: "(0::rat) < of_nat d" using d by simp
  have td: "truediv n d = of_int (round_half_even q) * u"
    using n by (simp add: truediv_def Let_def q_def u_def e_def)
  have ue: "2 ^ 52 * u = 2 powi e"
  proof -
    have "(2::rat) powi (52 + (e - 52)) = 2 powi 52 * 2 powi (e - 52)"
      by (rule power_int_add) simp
    then show ?thesis by (simp add: u_def)
  qed
  have ue1: "2 ^ 53 * u = 2 powi (e + 1)"
  proof -
    have "(2::rat) powi (53 + (e - 52)) = 2 powi 53 * 2 powi (e - 52)"
      by (rule power_int_add) simp
    then show ?thesis by (simp add: u_def add.commute)
  qed
  have "2 powi e * of_nat d \<le> (of_nat n :: rat)"
    using binade_bounds(1) [OF n d] by (simp add: e_def)
  then have "2 ^ 52 * u * of_nat d \<le> of_nat n"
    by (simp only: ue)
  then have qlo: "2 ^ 52 \<le> q"
    using upos dpos by (simp add: q_def field_simps)
  have "(of_nat n :: rat) < 2 powi (e + 1) * of_nat d"
    using binade_bounds(2) [OF n d] by (simp add: e_def)
  then have "of_nat n < 2 ^ 53 * u * of_nat d"
    by (simp only: ue1)
  then have qhi: "q < 2 ^ 53"
    using upos dpos by (simp add: q_def field_simps)
  have "(2 ^ 52 :: int) \<le> round_half_even q"
    using qlo by (intro round_half_even_ge) simp
  then have "(of_int (2 ^ 52) :: rat) \<le> of_int (round_half_even q)"
    by (simp only: of_int_le_iff)
  then have "2 ^ 52 * u \<le> of_int (round_half_even q) * u"
    using upos by (intro mult_right_mono) auto
  then show "(2::rat) powi binade n d \<le> truediv n d"
    by (simp only: td ue e_def)
  have "round_half_even q \<le> (2 ^ 53 :: int)"
    using qhi by (intro round_half_even_le) simp
  then have "(of_int (round_half_even q) :: rat) \<le> of_int (2 ^ 53)"
    by (simp only: of_int_le_iff)
  then have "of_int (round_half_even q) * u \<le> 2 ^ 53 * u"
    using upos by (intro mult_right_mono) auto
  then show "truediv n d \<le> (2::rat) powi (binade n d + 1)"
    by (simp only: td ue1 e_def)
qed

lemma powi_le_quarter: "e \<le> -2 \<Longrightarrow> (2::rat) powi e \<le> 1 / 4"
  using power_int_increasing [of e "-2" "2::rat"] by (simp add: power_int_minus)

lemma powi_ge_half: "-1 \<le> e \<Longrightarrow> 1 / 2 \<le> (2::rat) powi e"
  using power_int_increasing [of "-1" e "2::rat"] by (simp add: power_int_minus)

lemma truediv_gt_0_30:
  assumes d: "0 < d" "d \<le> 2 ^ 52"
  shows "(float_0_30 < truediv n d) = (3 * d < 10 * n)"
proof (cases "n = 0")
  case True
  then show ?thesis
    by (simp add: truediv_def float_0_30_value)
next
  case False
  then have n: "0 < n" by simp
  define e where "e = binade n d"
  define x where "x = (of_nat n :: rat) / of_nat d"
  have dpos: "(0::rat) < of_nat d" using d by simp
  have xlo: "2 powi e \<le> x"
    using binade_bounds(1) [OF n d(1)] dpos by (simp add: x_def e_def field_simps)
  have xhi: "x < 2 powi (e + 1)"
    using binade_bounds(2) [OF n d(1)] dpos by (simp add: x_def e_def field_simps)
  consider "e \<le> -3" | "e = -2" | "-1 \<le> e" by linarith
  then show ?thesis
  proof cases
    case 1
    then have "x < 1 / 4"
      using xhi powi_le_quarter [of "e + 1"] by simp
    then have "\<not> 3 * d < 10 * n"
      using dpos by (simp add: x_def field_simps)
    moreover have "truediv n d \<le> 1 / 4"
      using truediv_bounds(2) [OF n d(1)] powi_le_quarter [of "e + 1"] 1 by (simp add: e_def)
    ultimately show ?thesis
      by (simp add: float_0_30_value)
  next
    case 3
    then have "1 / 2 \<le> x"
      using xlo powi_ge_half [of e] by simp
    then have "3 * d < 10 * n"
      using dpos by (simp add: x_def field_simps)
    moreover have "1 / 2 \<le> truediv n d"
      using truediv_bounds(1) [OF n d(1)] powi_ge_half [of e] 3 by (simp add: e_def)
    ultimately show ?thesis
      by (simp add: float_0_30_value)
  next
    case 2
    define q where "q = x * 2 ^ 54"
    have td: "truediv n d = of_int (round_half_even q) / 2 ^ 54"
      using n 2 by (simp add: truediv_def Let_def q_def x_def e_def power_int_minus field_simps)
    show ?thesis
    proof (cases "3 * d < 10 * n")
      case True
      then have "3 * d + 1 \<le> 10 * n" by simp
      then have "(of_nat (3 * d + 1) :: rat) \<le> of_nat (10 * n)"
        by (simp only: of_nat_le_iff)
      then have "(3 * of_nat d + 1) / 10 \<le> (of_nat n :: rat)"
        by simp
      then have "(3 * of_nat d + 1) / 10 / of_nat d \<le> x"
        unfolding x_def using dpos by (intro divide_right_mono) auto
      moreover have "(of_nat d :: rat) \<le> 2 ^ 52"
        using d(2) by (metis of_nat_le_iff of_nat_numeral of_nat_power)
      then have "(5404319552844596 - 1 / 2) / 2 ^ 54 < (3 * of_nat d + 1) / 10 / (of_nat d :: rat)"
        using dpos by (simp add: field_simps)
      ultimately have "(5404319552844596 - 1 / 2) / 2 ^ 54 < x"
        by linarith
      then have "of_int 5404319552844596 - 1 / 2 < q"
        by (simp add: q_def field_simps)
      then have "5404319552844596 \<le> round_half_even q"
        by (rule round_half_even_ge)
      then have "(of_int 5404319552844596 :: rat) \<le> of_int (round_half_even q)"
        by (simp only: of_int_le_iff)
      then have "float_0_30 < truediv n d"
        by (simp add: td float_0_30_value field_simps)
      with True show ?thesis by simp
    next
      case False
      then have "10 * n \<le> 3 * d" by simp
      then have "(of_nat (10 * n) :: rat) \<le> of_nat (3 * d)"
        by (simp only: of_nat_le_iff)
      then have "x \<le> 3 / 10"
        using dpos by (simp add: x_def field_simps)
      then have "q < of_int 5404319552844595 + 1 / 2"
        by (simp add: q_def)
      then have "round_half_even q \<le> 5404319552844595"
        by (rule round_half_even_le)
      then have "(of_int (round_half_even q) :: rat) \<le> of_int 5404319552844595"
        by (simp only: of_int_le_iff)
      then have "\<not> float_0_30 < truediv n d"
        by (simp add: td float_0_30_value field_simps)
      with False show ?thesis by simp
    qed
  qed
qed

lemma sniff_exact:
  assumes "length chunk \<le> 2 ^ 52"
  shows "sniff chunk =
     (chunk \<noteq> [] \<and> (0 \<in> set chunk \<or> 3 * length chunk < 10 * nontext chunk))"
proof (cases "chunk = []")
  case True
  then show ?thesis by (simp add: sniff_def)
next
  case False
  then have "0 < max 1 (length chunk)" "max 1 (length chunk) = length chunk"
    by (auto simp: Suc_le_eq)
  with assms False show ?thesis
    using truediv_gt_0_30 [of "max 1 (length chunk)" "nontext chunk"]
    by (simp add: sniff_def)
qed


lemma text_abc: "sniff [0x61, 0x62, 0x0A] = False"
  by (simp add: sniff_exact nontext_def text_chars_def)


section \<open>The scenario's project\<close>

lemma pruned_default:
  "lower d \<notin> exclude_dirs_norm default_config \<longleftrightarrow> lower d \<notin> DEFAULT_EXCLUDE_DIRS"
  by (simp add: exclude_dirs_norm_def default_config_def DEFAULT_EXCLUDE_DIRS_def lower_def
        lower_char_def)

lemma lower_scenario_dirs: "lower ''src'' = ''src''" "lower ''build'' = ''build''"
  by code_simp+

lemma scenario_candidates:
  "candidates default_config scenario_fs =
     Some [[''notes.bin''], [''README''], [''Cargo.lock''], [''src'', ''main.rs'']]"
  by (simp add: candidates_def walk_loop_Nil walk_loop_Cons visit_def scenario_fs_def
        file_entry_def dir_entry_def pruned_default lower_scenario_dirs DEFAULT_EXCLUDE_DIRS_def)

lemma scenario_select:
  "select default_config [''notes.bin''] = ExcludeNoMatch"
  "select default_config [''README''] = Include"
  "select default_config [''Cargo.lock''] = ExcludeByExtension"
  "select default_config [''src'', ''main.rs''] = Include"
  by code_simp+

lemma scenario_iter_files:
  "iter_files default_config scenario_fs = Some [[''README''], [''src'', ''main.rs'']]"
  by (simp add: iter_files_def scenario_candidates scenario_select)


section \<open>Names outside ASCII\<close>

text \<open>
  Lowering and stripping on Latin-1: the capital \<open>0xC9\<close> is lowered to \<open>0xE9\<close>, the
  multiplication sign and the sharp s stay, and the no-break space and the next-line
  control are stripped. A file \<open>0xC9.ts\<close> is taken by the include glob \<open>0xE9*\<close>, a file
  below the directory \<open>0xC9\<close> is ignored by the glob \<open>0xE9/*\<close>, a glob padded with
  \<open>0xA0\<close> and \<open>0x85\<close> is the glob without them, the directory \<open>0xE9\<close> is pruned for the
  excluded name \<open>0xC9\<close>, and \<open>0xE9 a.rs\<close> is sorted before \<open>0xC9 b.rs\<close>.
\<close>

lemma lower_latin1:
  "lower [CHR 0xC9, CHR ''A'', CHR 0xD7, CHR 0xDF, CHR 0xDE] =
     [CHR 0xE9, CHR ''a'', CHR 0xD7, CHR 0xDF, CHR 0xFE]"
  "strip [CHR 0xA0, CHR ''a'', CHR '' '', CHR ''b'', CHR 0x85] = ''a b''"
  by code_simp+

lemma select_latin1:
  "select (default_config\<lparr>include_globs := [[CHR 0xE9, CHR ''*'']], prefer_include := True\<rparr>)
     [[CHR 0xC9] @ ''.ts''] = Include"
  "select (default_config\<lparr>ignore_globs := [[CHR 0xE9] @ ''/*'']\<rparr>) [[CHR 0xC9], ''README''] =
     ExcludeByGlob"
  "select (default_config\<lparr>include_globs := [[CHR 0xA0, CHR 0xE9, CHR 0x85]]\<rparr>) [[CHR 0xC9]] =
     Include"
  by code_simp+

lemma lower_accent: "lower [CHR 0xE9] = [CHR 0xE9]" "lower [CHR 0xC9] = [CHR 0xE9]"
  by code_simp+

lemma pruned_latin1:
  "candidates (default_config\<lparr>exclude_dirs := {[CHR 0xC9]}\<rparr>) accent_fs = Some [[''a.rs'']]"
  by (simp add: candidates_def walk_loop_Nil walk_loop_Cons visit_def accent_fs_def
        file_entry_def dir_entry_def exclude_dirs_norm_def default_config_def lower_accent)

lemma sort_latin1:
  "sort_files [[[CHR 0xC9] @ ''b.rs''], [[CHR 0xE9] @ ''a.rs'']] =
     [[[CHR 0xE9] @ ''a.rs''], [[CHR 0xC9] @ ''b.rs'']]"
  by code_simp


section \<open>Precedence of the selection rules\<close>

text \<open>
  C1, as the specification states it: a file whose lowercase base name is a name-override
  entry is included whatever the ignore globs and the excluded extensions say, and with
  the default configuration \<open>Cargo.lock\<close> is accepted. The code tests the ignore globs and
  the excluded extensions before it reaches the name overrides: with the default
  configuration \<open>Cargo.lock\<close>, a name-override entry, is left out for its extension
  \<open>lock\<close>, and the files yielded for the scenario's tree are \<open>README\<close> and \<open>src/main.rs\<close>.
\<close>

theorem cargo_lock_excluded_by_extension:
  "lower (name [''Cargo.lock'']) \<in> include_names \<and>
   select default_config [''Cargo.lock''] = ExcludeByExtension \<and>
   iter_files default_config scenario_fs = Some [[''README''], [''src'', ''main.rs'']]"
proof -
  have "lower (name [''Cargo.lock'']) \<in> include_names"
    by code_simp
  then show ?thesis
    by (simp add: scenario_select scenario_iter_files)
qed

text \<open>
  C1, amended: a file whose lowercase base name is a name-override entry is included
  exactly when the prefer-include rule takes it, or no ignore glob matches its path and
  its extension is empty or outside the excluded-extension set. The ignore rules come
  before the name overrides.
\<close>

theorem name_override_after_ignore_rules:
  assumes "lower (name rel) \<in> include_names"
  shows "(select cfg rel = Include) =
     ((prefer_include cfg \<and> match_any_glob (rel_lower rel) (inc_globs cfg)) \<or>
      \<not> (match_any_glob (rel_lower rel) (ign_globs cfg) \<or>
         (ext_of rel \<noteq> [] \<and> ext_of rel \<in> ignore_exts cfg)))"
  using assms
  by (cases "inc_globs cfg = []"; cases "ign_globs cfg = []")
     (auto simp: select_def Let_def should_include_file_def match_any_glob_Nil)

theorem name_override_after_ignore_rules_witness:
  "lower (name [''README'']) \<in> include_names \<and> select default_config [''README''] = Include"
proof -
  have h: "lower (name [''README'']) \<in> include_names"
    by code_simp
  have g: "\<not> (match_any_glob (rel_lower [''README'']) (ign_globs default_config) \<or>
         (ext_of [''README''] \<noteq> [] \<and> ext_of [''README''] \<in> ignore_exts default_config))"
    by code_simp
  from name_override_after_ignore_rules [OF h, of default_config] g h show ?thesis
    by blast
qed

text \<open>
  C2: when \<open>prefer_include\<close> is set and the lowercase root-relative path matches an
  include glob, the file is yielded, whatever the ignore globs and the excluded
  extensions. With the include glob \<open>**/*.generated.ts\<close>, \<open>prefer_include\<close> and the ignore
  glob \<open>**/*.ts\<close>, \<open>pkg/api.generated.ts\<close> is yielded and \<open>pkg/plain.ts\<close> is left out by the
  ignore glob.
\<close>

theorem prefer_include_overrides_ignore:
  "(prefer_include cfg \<and> match_any_glob (rel_lower rel) (inc_globs cfg)
      \<longrightarrow> select cfg rel = Include) \<and>
   select generated_ts_config [''pkg'', ''api.generated.ts''] = Include \<and>
   select generated_ts_config [''pkg'', ''plain.ts''] = ExcludeByGlob"
proof (intro conjI impI)
  assume "prefer_include cfg \<and> match_any_glob (rel_lower rel) (inc_globs cfg)"
  then show "select cfg rel = Include"
    by (cases "inc_globs cfg = []") (auto simp: select_def Let_def match_any_glob_Nil)
next
  show "select generated_ts_config [''pkg'', ''api.generated.ts''] = Include"
    by code_simp
next
  show "select generated_ts_config [''pkg'', ''plain.ts''] = ExcludeByGlob"
    by code_simp
qed

text \<open>The witness: the path matches the ignore glob and has an excluded extension too.\<close>

theorem prefer_include_overrides_ignore_witness:
  "prefer_include generated_ts_config \<and>
   match_any_glob (rel_lower [''pkg'', ''api.generated.ts'']) (inc_globs generated_ts_config) \<and>
   match_any_glob (rel_lower [''pkg'', ''api.generated.ts'']) (ign_globs generated_ts_config) \<and>
   ext_of [''pkg'', ''api.generated.ts''] \<in> ignore_exts generated_ts_config \<and>
   select generated_ts_config [''pkg'', ''api.generated.ts''] = Include"
proof -
  have h: "prefer_include generated_ts_config \<and>
      match_any_glob (rel_lower [''pkg'', ''api.generated.ts'']) (inc_globs generated_ts_config)"
    by code_simp
  have g: "match_any_glob (rel_lower [''pkg'', ''api.generated.ts''])
        (ign_globs generated_ts_config) \<and>
      ext_of [''pkg'', ''api.generated.ts''] \<in> ignore_exts generated_ts_config"
    by code_simp
  from prefer_include_overrides_ignore [of generated_ts_config "[''pkg'', ''api.generated.ts'']"]
    h g
  show ?thesis
    by blast
qed

text \<open>
  C10: a file with an empty extension is never left out by the excluded-extension rule,
  also when the set holds the empty string; when it is not yielded, an ignore glob
  matches it, or no include glob matches it and the base rule refuses it.
\<close>

theorem empty_extension_never_excluded_by_extension:
  assumes "ext_of rel = []"
  shows "select cfg rel \<noteq> ExcludeByExtension \<and>
     (select cfg rel \<noteq> Include \<longrightarrow>
        match_any_glob (rel_lower rel) (ign_globs cfg) \<or>
        (\<not> match_any_glob (rel_lower rel) (inc_globs cfg) \<and>
         \<not> should_include_file rel (exts cfg) include_names))"
  using assms
  by (cases "inc_globs cfg = []"; cases "ign_globs cfg = []")
     (auto simp: select_def Let_def match_any_glob_Nil)

theorem empty_extension_never_excluded_by_extension_witness:
  "ext_of [''notes''] = [] \<and> [] \<in> ignore_exts empty_ext_config \<and>
   select empty_ext_config [''notes''] = Include"
proof -
  have h: "ext_of [''notes''] = []"
    by code_simp
  have g: "[] \<in> ignore_exts empty_ext_config \<and> select empty_ext_config [''notes''] = Include"
    by code_simp
  from empty_extension_never_excluded_by_extension [OF h, of empty_ext_config] g h
  show ?thesis
    by blast
qed


section \<open>The code fence is longer than every run of backticks\<close>

lemma foldr_max_append:
  "foldr max (xs @ ys) (0::nat) = max (foldr max xs 0) (foldr max ys 0)"
  by (induction xs) auto

lemma sublist_across:
  assumes "sublist xs (as @ c # bs)" and "c \<notin> set xs"
  shows "sublist xs as \<or> sublist xs bs"
proof -
  have no_prefix: "prefix xs (ys @ c # bs) \<Longrightarrow> prefix xs ys" for ys
    using assms(2) by (auto simp: prefix_append prefix_Cons)
  from assms(1) show ?thesis
  proof (induction as)
    case Nil
    then show ?case
      using no_prefix [of "[]"] by (auto simp: sublist_Cons_right)
  next
    case (Cons a as)
    then show ?case
      using no_prefix [of "a # as"] by (auto simp: sublist_Cons_right)
  qed
qed

lemma sublist_replicate_le:
  "sublist (replicate n x) (replicate k x) \<Longrightarrow> n \<le> k"
  by (drule sublist_length_le) simp

lemma run_bound:
  "sublist (replicate n tick) (replicate k tick @ rest) \<Longrightarrow>
   n \<le> foldr max (map length (tick_runs (replicate k tick) rest)) 0"
proof (induction rest arbitrary: k)
  case Nil
  then show ?case using sublist_replicate_le [of n tick k] by auto
next
  case (Cons c cs)
  show ?case
  proof (cases "c = tick")
    case True
    have "replicate k tick @ c # cs = replicate (Suc k) tick @ cs"
      using True by (simp add: replicate_append_same)
    with Cons.prems have "sublist (replicate n tick) (replicate (Suc k) tick @ cs)" by simp
    from Cons.IH [OF this] show ?thesis
      using True by (simp add: replicate_append_same)
  next
    case False
    then have "c \<notin> set (replicate n tick)" by auto
    from sublist_across [OF Cons.prems this]
    have "sublist (replicate n tick) (replicate k tick) \<or> sublist (replicate n tick) (replicate 0 tick @ cs)"
      by simp
    then show ?thesis
    proof
      assume "sublist (replicate n tick) (replicate k tick)"
      then have "n \<le> k" by (rule sublist_replicate_le)
      then show ?thesis using False
        by (cases "k = 0") (auto simp: foldr_max_append)
    next
      assume "sublist (replicate n tick) (replicate 0 tick @ cs)"
      from Cons.IH [OF this] show ?thesis using False
        by (auto simp: foldr_max_append)
    qed
  qed
qed

lemma longest_run_bound: "sublist (replicate n tick) content \<Longrightarrow> n \<le> longest_run content"
  using run_bound [of n 0 content] by (simp add: longest_run_def)

text \<open>
  C9: for every content, \<open>choose_code_fence\<close> returns backticks only, at least three of
  them, and more than any run of consecutive backticks that occurs in the content.
\<close>

theorem fence_longer_than_every_run:
  "set (choose_code_fence content) = {tick} \<and> 3 \<le> length (choose_code_fence content) \<and>
   (\<forall>n. sublist (replicate n tick) content \<longrightarrow> n < length (choose_code_fence content))"
proof (intro conjI allI impI)
  show "set (choose_code_fence content) = {tick}"
    by (simp add: choose_code_fence_def Let_def)
  show "3 \<le> length (choose_code_fence content)"
    by (simp add: choose_code_fence_def Let_def)
  fix n assume "sublist (replicate n tick) content"
  then have "n \<le> longest_run content"
    by (rule longest_run_bound)
  then show "n < length (choose_code_fence content)"
    by (simp add: choose_code_fence_def Let_def)
qed

text \<open>The witness: a content with a run of four backticks gets a fence of six.\<close>

theorem fence_longer_than_every_run_witness:
  "sublist (replicate 4 tick) (''a'' @ replicate 4 tick @ ''b'' @ replicate 2 tick) \<and>
   choose_code_fence (''a'' @ replicate 4 tick @ ''b'' @ replicate 2 tick) = replicate 6 tick"
proof -
  let ?c = "''a'' @ replicate 4 tick @ ''b'' @ replicate 2 tick"
  have h: "sublist (replicate 4 tick) ?c"
    by code_simp
  have e: "choose_code_fence ?c = replicate 6 tick"
    by code_simp
  from fence_longer_than_every_run [of ?c] h have "4 < length (choose_code_fence ?c)"
    by blast
  with h e show ?thesis
    by simp
qed


section \<open>The threshold of the binary sniffer\<close>

lemma below_7F: "(b < (0x7F :: 8 word)) = (b \<le> 0x7E)"
  by (simp add: word_less_nat_alt word_le_nat_alt) arith

lemma nontext_spelled:
  "nontext chunk =
     length (filter (\<lambda>b. \<not> (0x20 \<le> b \<and> b \<le> 0x7E) \<and> b \<notin> {7, 8, 9, 10, 12, 13, 27}) chunk)"
  by (auto simp: nontext_def text_chars_def below_7F intro!: arg_cong [where f = length] filter_cong)

lemma nontext_buffer: "nontext (replicate a 0x41 @ replicate b 0x80) = b"
  by (simp add: nontext_def text_chars_def)

text \<open>
  C4: on the bytes read, the sniffer answers "not binary" for the empty prefix and
  "binary" for a prefix with a NUL byte; for any other prefix (of at most \<open>2^52\<close> bytes;
  the program reads 4096) it answers "binary" exactly when the bytes outside \<open>0x20\<close> to
  \<open>0x7E\<close> and 7, 8, 9, 10, 12, 13, 27 are more than 30 percent of the prefix, the fraction
  taken exactly.
\<close>

theorem sniff_threshold:
  "sniff [] = False \<and>
   (0 \<in> set chunk \<longrightarrow> sniff chunk) \<and>
   (chunk \<noteq> [] \<and> 0 \<notin> set chunk \<and> length chunk \<le> 2 ^ 52 \<longrightarrow>
      sniff chunk = (3 / 10 < (of_nat (nontext chunk) :: rat) / of_nat (length chunk))) \<and>
   nontext chunk =
     length (filter (\<lambda>b. \<not> (0x20 \<le> b \<and> b \<le> 0x7E) \<and> b \<notin> {7, 8, 9, 10, 12, 13, 27}) chunk)"
proof (intro conjI impI)
  show "sniff [] = False"
    by (simp add: sniff_def)
  show "sniff chunk" if "0 \<in> set chunk"
    using that by (auto simp: sniff_def)
  show "sniff chunk = (3 / 10 < (of_nat (nontext chunk) :: rat) / of_nat (length chunk))"
    if h: "chunk \<noteq> [] \<and> 0 \<notin> set chunk \<and> length chunk \<le> 2 ^ 52"
  proof -
    have "(0::rat) < of_nat (length chunk)"
      using h by simp
    then have "(3 / 10 < (of_nat (nontext chunk) :: rat) / of_nat (length chunk)) =
        ((3::rat) * of_nat (length chunk) < 10 * of_nat (nontext chunk))"
      by (simp add: field_simps)
    also have "\<dots> = (3 * length chunk < 10 * nontext chunk)"
      by (metis (mono_tags) of_nat_less_iff of_nat_mult of_nat_numeral)
    finally show ?thesis
      using h by (simp add: sniff_exact)
  qed
  show "nontext chunk =
     length (filter (\<lambda>b. \<not> (0x20 \<le> b \<and> b \<le> 0x7E) \<and> b \<notin> {7, 8, 9, 10, 12, 13, 27}) chunk)"
    by (rule nontext_spelled)
qed

text \<open>
  The witness: 100 bytes of which 29, 30 and 31 are \<open>0x80\<close> and the others \<open>A\<close>, and 99
  letters \<open>A\<close> with one NUL byte.
\<close>

theorem sniff_threshold_witness:
  "sniff (buffer 71 29) = False \<and> sniff (buffer 70 30) = False \<and> sniff (buffer 69 31) = True \<and>
   sniff (replicate 99 0x41 @ [0]) = True"
proof -
  have nb: "buffer a b \<noteq> [] \<and> 0 \<notin> set (buffer a b) \<and> length (buffer a b) \<le> 2 ^ 52"
    if "a + b = 100" for a b
    using that by (auto simp: buffer_def)
  have nt: "nontext (buffer a b) = b" "length (buffer a b) = a + b" for a b
    by (simp_all add: buffer_def nontext_buffer)
  from sniff_threshold [of "buffer 71 29"] nb [of 71 29]
  have "sniff (buffer 71 29) = False"
    by (simp add: nt)
  moreover from sniff_threshold [of "buffer 70 30"] nb [of 70 30]
  have "sniff (buffer 70 30) = False"
    by (simp add: nt)
  moreover from sniff_threshold [of "buffer 69 31"] nb [of 69 31]
  have "sniff (buffer 69 31) = True"
    by (simp add: nt)
  moreover from sniff_threshold [of "replicate 99 0x41 @ [0]"]
  have "sniff (replicate 99 0x41 @ [0]) = True"
    by simp
  ultimately show ?thesis
    by blast
qed


section \<open>Excluded directories\<close>

lemma pruned:
  "exclude_dirs cfg = DEFAULT_EXCLUDE_DIRS \<Longrightarrow>
   lower d \<notin> exclude_dirs_norm cfg \<longleftrightarrow> lower d \<notin> DEFAULT_EXCLUDE_DIRS"
  by (simp add: exclude_dirs_norm_def DEFAULT_EXCLUDE_DIRS_def lower_def lower_char_def)

lemma build_glob_candidates:
  "candidates build_glob_config scenario_fs =
     Some [[''notes.bin''], [''README''], [''Cargo.lock''], [''src'', ''main.rs'']]"
  by (simp add: candidates_def walk_loop_Nil walk_loop_Cons visit_def scenario_fs_def
        file_entry_def dir_entry_def pruned lower_scenario_dirs DEFAULT_EXCLUDE_DIRS_def
        build_glob_config_def default_config_def)

text \<open>
  C3: for every name in the excluded-directory set, no file that the walk looks at, and so
  no file that \<open>iter_files\<close> yields, has among the directories of its root-relative path
  one whose lowercase name is the lowercase of that name, whatever the include globs. The
  directories are those of the path as the walk builds it, so a directory reached through
  a symbolic link counts under the link's name.
\<close>

theorem excluded_directories_yield_no_files:
  "(candidates cfg fs = Some cands \<longrightarrow>
      (\<forall>x\<in>exclude_dirs cfg. \<forall>f\<in>set cands. \<forall>d\<in>set (butlast f). lower d \<noteq> lower x)) \<and>
   (iter_files cfg fs = Some files \<longrightarrow>
      (\<forall>x\<in>exclude_dirs cfg. \<forall>f\<in>set files. \<forall>d\<in>set (butlast f). lower d \<noteq> lower x))"
proof (intro conjI impI)
  show "\<forall>x\<in>exclude_dirs cfg. \<forall>f\<in>set cands. \<forall>d\<in>set (butlast f). lower d \<noteq> lower x"
    if "candidates cfg fs = Some cands"
    using candidates_not_below_excluded [OF that] by (auto simp: exclude_dirs_norm_def)
  show "\<forall>x\<in>exclude_dirs cfg. \<forall>f\<in>set files. \<forall>d\<in>set (butlast f). lower d \<noteq> lower x"
    if h: "iter_files cfg fs = Some files"
  proof -
    from h obtain cands where c: "candidates cfg fs = Some cands"
      and f: "files = filter (\<lambda>p. select cfg p = Include) cands"
      by (auto simp: iter_files_def)
    from candidates_not_below_excluded [OF c] show ?thesis
      by (auto simp: f exclude_dirs_norm_def)
  qed
qed

text \<open>
  The witness: \<open>build/output.o\<close> exists and the include glob \<open>build/*\<close> with
  \<open>prefer_include\<close> would select it, but \<open>build\<close> is pruned and the file is no candidate.
\<close>

theorem excluded_directories_yield_no_files_witness:
  "''build'' \<in> exclude_dirs build_glob_config \<and>
   scandir scenario_fs [''build''] = Some [file_entry ''output.o''] \<and>
   select build_glob_config [''build'', ''output.o''] = Include \<and>
   candidates build_glob_config scenario_fs =
     Some [[''notes.bin''], [''README''], [''Cargo.lock''], [''src'', ''main.rs'']] \<and>
   [''build'', ''output.o''] \<notin>
     set [[''notes.bin''], [''README''], [''Cargo.lock''], [''src'', ''main.rs'']]"
proof -
  let ?cs = "[[''notes.bin''], [''README''], [''Cargo.lock''], [''src'', ''main.rs'']]"
  have x: "''build'' \<in> exclude_dirs build_glob_config"
    by (simp add: build_glob_config_def default_config_def DEFAULT_EXCLUDE_DIRS_def)
  have s: "scandir scenario_fs [''build''] = Some [file_entry ''output.o'']"
    by (simp add: scenario_fs_def)
  have i: "select build_glob_config [''build'', ''output.o''] = Include"
    by code_simp
  from excluded_directories_yield_no_files [of build_glob_config scenario_fs ?cs]
    build_glob_candidates x
  have "\<forall>f\<in>set ?cs. \<forall>d\<in>set (butlast f). lower d \<noteq> lower ''build''"
    by blast
  then have "[''build'', ''output.o''] \<notin> set ?cs"
    by auto
  with x s i build_glob_candidates show ?thesis
    by blast
qed


section \<open>The size limit\<close>

lemma opened_process_file:
  "set (opened (process_file cfg fs st p)) \<subseteq> set (opened st) \<union> {p}"
  by (auto simp: process_file_def Let_def split: option.splits)

lemma too_large_not_opened:
  "0 < max_bytes cfg \<Longrightarrow> stat_size fs p = Some sz \<Longrightarrow> max_bytes cfg < int sz \<Longrightarrow>
   opened (process_file cfg fs st p) = opened st"
  by (simp add: process_file_def)

lemma foldl_not_opened:
  assumes "0 < max_bytes cfg" "stat_size fs fp = Some sz" "max_bytes cfg < int sz"
  shows "fp \<notin> set (opened st) \<Longrightarrow> fp \<notin> set (opened (foldl (process_file cfg fs) st files))"
proof (induction files arbitrary: st)
  case Nil
  then show ?case by simp
next
  case (Cons p files)
  have "fp \<notin> set (opened (process_file cfg fs st p))"
  proof (cases "p = fp")
    case True
    then show ?thesis
      using Cons.prems too_large_not_opened [OF assms, of st] by simp
  next
    case False
    then show ?thesis
      using Cons.prems opened_process_file [of cfg fs st p] by auto
  qed
  from Cons.IH [OF this] show ?case by simp
qed

text \<open>
  C5: with a positive \<open>max_bytes\<close>, a file of exactly \<open>max_bytes\<close> bytes that is not
  sniffed as binary and can be read is written; a file of \<open>max_bytes + 1\<close> bytes is counted
  as too large and nothing else happens to it, and no file larger than \<open>max_bytes\<close> is ever
  opened in the run; with \<open>max_bytes\<close> zero (the test is \<open>max_bytes > 0\<close>, so also below
  zero) no file is counted as too large.
\<close>

theorem size_limit:
  "(0 < max_bytes cfg \<and> stat_size fs fp = Some sz \<and> int sz = max_bytes cfg \<and>
      \<not> is_probably_binary fs fp 4096 \<and> read_text fs fp = Some content \<longrightarrow>
      process_file cfg fs st fp =
        st\<lparr>opened := opened st @ [fp, fp], written := written st + 1,
           emitted := emitted st @ [fp]\<rparr>) \<and>
   (0 < max_bytes cfg \<and> stat_size fs fp = Some sz \<and> int sz = max_bytes cfg + 1 \<longrightarrow>
      process_file cfg fs st fp = st\<lparr>skipped_too_large := skipped_too_large st + 1\<rparr>) \<and>
   (0 < max_bytes cfg \<and> stat_size fs fp = Some sz \<and> max_bytes cfg < int sz \<and>
      main cfg fs = Some final \<longrightarrow> fp \<notin> set (opened final)) \<and>
   (max_bytes cfg \<le> 0 \<longrightarrow>
      skipped_too_large (process_file cfg fs st fp) = skipped_too_large st)"
proof (intro conjI impI)
  show "process_file cfg fs st fp =
        st\<lparr>opened := opened st @ [fp, fp], written := written st + 1,
           emitted := emitted st @ [fp]\<rparr>"
    if "0 < max_bytes cfg \<and> stat_size fs fp = Some sz \<and> int sz = max_bytes cfg \<and>
      \<not> is_probably_binary fs fp 4096 \<and> read_text fs fp = Some content"
    using that by (simp add: process_file_def Let_def)
  show "process_file cfg fs st fp = st\<lparr>skipped_too_large := skipped_too_large st + 1\<rparr>"
    if "0 < max_bytes cfg \<and> stat_size fs fp = Some sz \<and> int sz = max_bytes cfg + 1"
    using that by (simp add: process_file_def)
  show "fp \<notin> set (opened final)"
    if "0 < max_bytes cfg \<and> stat_size fs fp = Some sz \<and> max_bytes cfg < int sz \<and>
      main cfg fs = Some final"
    using that foldl_not_opened [of cfg fs fp sz init_state]
    by (auto simp: main_def init_state_def split: option.splits)
  show "skipped_too_large (process_file cfg fs st fp) = skipped_too_large st"
    if "max_bytes cfg \<le> 0"
    using that by (simp add: process_file_def Let_def split: option.splits)
qed

lemma visit_max_bytes: "visit fs (cfg\<lparr>max_bytes := m\<rparr>) = visit fs cfg"
  by (simp add: visit_def exclude_dirs_norm_def fun_eq_iff Let_def cong: option.case_cong)

lemma select_max_bytes: "select (cfg\<lparr>max_bytes := m\<rparr>) = select cfg"
  by (simp add: select_def inc_globs_def ign_globs_def fun_eq_iff Let_def cong: if_cong)

lemma iter_files_max_bytes: "iter_files (cfg\<lparr>max_bytes := m\<rparr>) fs = iter_files cfg fs"
  by (simp add: iter_files_def candidates_def visit_max_bytes select_max_bytes)

lemma scenario_sorted:
  "sort_files [[''README''], [''src'', ''main.rs'']] = [[''README''], [''src'', ''main.rs'']]"
  by code_simp

lemma scenario_readable:
  "\<not> is_probably_binary scenario_fs [''README''] 4096"
  "read_text scenario_fs [''README''] = Some [CHR ''a'', CHR ''b'', CHR 0x0A]"
  "stat_size scenario_fs p = Some 3"
  by (simp_all add: is_probably_binary_def scenario_fs_def text_abc)

text \<open>The witness: the scenario's \<open>README\<close>, three bytes long, with limits 3, 2 and 0.\<close>

theorem size_limit_witness:
  "process_file (default_config\<lparr>max_bytes := 3\<rparr>) scenario_fs init_state [''README''] =
     init_state\<lparr>opened := [[''README''], [''README'']], written := 1,
       emitted := [[''README'']]\<rparr> \<and>
   process_file (default_config\<lparr>max_bytes := 2\<rparr>) scenario_fs init_state [''README''] =
     init_state\<lparr>skipped_too_large := 1\<rparr> \<and>
   main (default_config\<lparr>max_bytes := 2\<rparr>) scenario_fs = Some (init_state\<lparr>skipped_too_large := 2\<rparr>) \<and>
   [''README''] \<notin> set (opened (init_state\<lparr>skipped_too_large := 2\<rparr>)) \<and>
   skipped_too_large
     (process_file (default_config\<lparr>max_bytes := 0\<rparr>) scenario_fs init_state [''README'']) = 0"
proof -
  let ?c3 = "default_config\<lparr>max_bytes := 3\<rparr>"
  let ?c2 = "default_config\<lparr>max_bytes := 2\<rparr>"
  let ?c0 = "default_config\<lparr>max_bytes := 0\<rparr>"
  let ?p = "[''README'']"
  have m: "main ?c2 scenario_fs = Some (init_state\<lparr>skipped_too_large := 2\<rparr>)"
    by (simp add: main_def iter_files_max_bytes scenario_iter_files scenario_sorted
        process_file_def scenario_readable init_state_def)
  note t = size_limit [of ?c3 scenario_fs ?p 3 "[CHR ''a'', CHR ''b'', CHR 0x0A]" init_state]
    size_limit [of ?c2 scenario_fs ?p 3 _ init_state "init_state\<lparr>skipped_too_large := 2\<rparr>"]
    size_limit [of ?c0 scenario_fs ?p _ _ init_state]
  from t m show ?thesis
    by (simp add: scenario_readable init_state_def)
qed


section \<open>The order of the files\<close>

lemma case_candidates: "candidates default_config case_fs = Some [[''a.rs''], [''A.rs'']]"
  by (simp add: candidates_def walk_loop_Nil walk_loop_Cons visit_def case_fs_def file_entry_def)

lemma swapped_case_candidates:
  "candidates default_config swapped_case_fs = Some [[''A.rs''], [''a.rs'']]"
  by (simp add: candidates_def walk_loop_Nil walk_loop_Cons visit_def swapped_case_fs_def
        file_entry_def)

lemma case_select:
  "select default_config [''a.rs''] = Include" "select default_config [''A.rs''] = Include"
  by code_simp+

lemma case_sorted:
  "sort_files [[''a.rs''], [''A.rs'']] = [[''a.rs''], [''A.rs'']]"
  "sort_files [[''A.rs''], [''a.rs'']] = [[''A.rs''], [''a.rs'']]"
  by code_simp+

lemma empty_file_written:
  "stat_size fs p = Some 0 \<Longrightarrow> open_rb fs p = Some [] \<Longrightarrow> read_text fs p = Some [] \<Longrightarrow>
   process_file default_config fs st p =
     st\<lparr>opened := opened st @ [p, p], written := written st + 1, emitted := emitted st @ [p]\<rparr>"
  by (simp add: process_file_def is_probably_binary_def sniff_def default_config_def)

text \<open>
  C6: the specification has the files sorted by their lowercased paths, a tie of two
  lowercased paths broken by the original paths. The key of \<open>files.sort\<close> is the lowercased
  path alone and the sort is stable, so a tie is left in the order of the directory
  listing: the directory with \<open>a.rs\<close> and \<open>A.rs\<close> is written as \<open>a.rs\<close>, \<open>A.rs\<close> when it is
  listed so and as \<open>A.rs\<close>, \<open>a.rs\<close> when it is listed the other way round, while \<open>A.rs\<close> is
  the smaller path.
\<close>

theorem ties_follow_listing_order:
  "rel_lower [''a.rs''] = rel_lower [''A.rs''] \<and>
   rel_posix [''A.rs''] < rel_posix [''a.rs''] \<and>
   scandir case_fs [] = Some [file_entry ''a.rs'', file_entry ''A.rs''] \<and>
   main default_config case_fs =
     Some \<lparr>written = 2, skipped_binary = 0, skipped_too_large = 0, skipped_errors = 0,
           opened = [[''a.rs''], [''a.rs''], [''A.rs''], [''A.rs'']],
           emitted = [[''a.rs''], [''A.rs'']]\<rparr> \<and>
   scandir swapped_case_fs [] = Some [file_entry ''A.rs'', file_entry ''a.rs''] \<and>
   main default_config swapped_case_fs =
     Some \<lparr>written = 2, skipped_binary = 0, skipped_too_large = 0, skipped_errors = 0,
           opened = [[''A.rs''], [''A.rs''], [''a.rs''], [''a.rs'']],
           emitted = [[''A.rs''], [''a.rs'']]\<rparr>"
proof -
  have k: "rel_lower [''a.rs''] = rel_lower [''A.rs'']" "rel_posix [''A.rs''] < rel_posix [''a.rs'']"
    by code_simp+
  have f: "stat_size case_fs p = Some 0" "open_rb case_fs p = Some []"
    "read_text case_fs p = Some []" "stat_size swapped_case_fs p = Some 0"
    "open_rb swapped_case_fs p = Some []" "read_text swapped_case_fs p = Some []" for p
    by (simp_all add: case_fs_def swapped_case_fs_def)
  have a: "main default_config case_fs =
     Some \<lparr>written = 2, skipped_binary = 0, skipped_too_large = 0, skipped_errors = 0,
           opened = [[''a.rs''], [''a.rs''], [''A.rs''], [''A.rs'']],
           emitted = [[''a.rs''], [''A.rs'']]\<rparr>"
    by (simp add: main_def iter_files_def case_candidates case_select case_sorted
        empty_file_written f init_state_def)
  have b: "main default_config swapped_case_fs =
     Some \<lparr>written = 2, skipped_binary = 0, skipped_too_large = 0, skipped_errors = 0,
           opened = [[''A.rs''], [''A.rs''], [''a.rs''], [''a.rs'']],
           emitted = [[''A.rs''], [''a.rs'']]\<rparr>"
    by (simp add: main_def iter_files_def swapped_case_candidates case_select case_sorted
        empty_file_written f init_state_def)
  from k a b show ?thesis
    by (simp add: case_fs_def swapped_case_fs_def)
qed

text \<open>
  What the sort does give: the files in ascending order of their lowercased paths, files
  with the same lowercased path in the order of the walk, and the files of a run written
  in that order.
\<close>

lemma emitted_process_file:
  "emitted (process_file cfg fs st p) = emitted st \<or>
   emitted (process_file cfg fs st p) = emitted st @ [p]"
  by (auto simp: process_file_def Let_def split: option.splits)

lemma emitted_foldl:
  "\<exists>ys. emitted (foldl (process_file cfg fs) st xs) = emitted st @ ys \<and> subseq ys xs"
proof (induction xs arbitrary: st)
  case Nil
  then show ?case by simp
next
  case (Cons p xs)
  from Cons.IH [of "process_file cfg fs st p"] obtain ys
    where ys: "emitted (foldl (process_file cfg fs) (process_file cfg fs st p) xs) =
        emitted (process_file cfg fs st p) @ ys" "subseq ys xs"
    by blast
  from emitted_process_file [of cfg fs st p] show ?case
  proof
    assume "emitted (process_file cfg fs st p) = emitted st"
    with ys show ?thesis
      by (auto intro!: exI [of _ ys])
  next
    assume "emitted (process_file cfg fs st p) = emitted st @ [p]"
    with ys show ?thesis
      by (auto intro!: exI [of _ "p # ys"])
  qed
qed

lemma sorted_subseq:
  "subseq ys xs \<Longrightarrow> sorted (map f xs) \<Longrightarrow> sorted (map f ys)"
proof (induction rule: list_emb.induct)
  case (list_emb_Nil ys)
  then show ?case by simp
next
  case (list_emb_Cons xs ys y)
  then show ?case by simp
next
  case (list_emb_Cons2 x y xs ys)
  then have "\<forall>z\<in>set xs. z \<in> set ys"
    using list_emb_set [of "(=)" xs ys] by auto
  with list_emb_Cons2 show ?case
    by auto
qed

lemma sort_files_sorted_stable:
  "sorted (map rel_lower (sort_files files)) \<and>
   mset (sort_files files) = mset files \<and>
   (\<forall>k. filter (\<lambda>p. rel_lower p = k) (sort_files files) = filter (\<lambda>p. rel_lower p = k) files) \<and>
   (main cfg fs = Some st \<longrightarrow> sorted (map rel_lower (emitted st)))"
proof (intro conjI allI impI)
  show "sorted (map rel_lower (sort_files files))"
    unfolding sort_files_def by (rule sorted_sort_key)
  show "mset (sort_files files) = mset files"
    unfolding sort_files_def by (rule mset_sort)
  show "filter (\<lambda>p. rel_lower p = k) (sort_files files) = filter (\<lambda>p. rel_lower p = k) files"
    for k
    unfolding sort_files_def by (rule sort_key_stable)
  show "sorted (map rel_lower (emitted st))" if "main cfg fs = Some st"
  proof -
    from that obtain fl where st: "st = foldl (process_file cfg fs) init_state (sort_files fl)"
      by (auto simp: main_def split: option.splits)
    from emitted_foldl [of cfg fs init_state "sort_files fl"] obtain ys
      where "emitted st = ys" "subseq ys (sort_files fl)"
      by (auto simp: st init_state_def)
    moreover have "sorted (map rel_lower (sort_files fl))"
      unfolding sort_files_def by (rule sorted_sort_key)
    ultimately show ?thesis
      using sorted_subseq by blast
  qed
qed


section \<open>Symbolic links\<close>







section \<open>Directories that cannot be listed\<close>

lemma lower_secret: "lower ''secret'' = ''secret''"
  by code_simp

lemma main_rs_selected: "select default_config [''main.rs''] = Include"
  by code_simp

lemma sort_one: "sort_files [p] = [p]"
  by (simp add: sort_files_def)

lemma locked_main:
  "main default_config locked_fs =
     Some \<lparr>written = 1, skipped_binary = 0, skipped_too_large = 0, skipped_errors = 0,
           opened = [[''main.rs''], [''main.rs'']], emitted = [[''main.rs'']]\<rparr>"
proof -
  have "candidates default_config locked_fs = Some [[''main.rs'']]"
    by (simp add: candidates_def walk_loop_Nil walk_loop_Cons visit_def locked_fs_def
        file_entry_def dir_entry_def pruned_default lower_secret DEFAULT_EXCLUDE_DIRS_def)
  then have "iter_files default_config locked_fs = Some [[''main.rs'']]"
    by (simp add: iter_files_def main_rs_selected)
  then show ?thesis
    by (simp add: main_def sort_one process_file_def is_probably_binary_def text_abc
        init_state_def locked_fs_def default_config_def)
qed

text \<open>
  C8, as the specification states it, counts a directory that cannot be listed as an
  error. \<open>os.walk\<close> is called without \<open>onerror\<close>: the directory \<open>secret\<close> cannot be
  listed, the run writes \<open>main.rs\<close> and every counter but \<open>written\<close> is zero.
\<close>

theorem unreadable_directory_not_counted:
  "scandir locked_fs [] = Some [dir_entry ''secret'', file_entry ''main.rs''] \<and>
   scandir locked_fs [''secret''] = None \<and>
   main default_config locked_fs =
     Some \<lparr>written = 1, skipped_binary = 0, skipped_too_large = 0, skipped_errors = 0,
           opened = [[''main.rs''], [''main.rs'']], emitted = [[''main.rs'']]\<rparr>"
  by (simp add: locked_main) (simp add: locked_fs_def)

lemma visit_unreadable_like_empty:
  assumes "scandir fs p = None"
  shows "visit (fs\<lparr>scandir := (scandir fs)(p \<mapsto> [])\<rparr>) cfg = visit fs cfg"
  using assms by (auto simp: visit_def fun_eq_iff)

lemma is_probably_binary_scandir:
  "is_probably_binary (fs\<lparr>scandir := sd\<rparr>) = is_probably_binary fs"
  by (simp add: is_probably_binary_def fun_eq_iff)

lemma process_file_scandir:
  "process_file cfg (fs\<lparr>scandir := sd\<rparr>) = process_file cfg fs"
  by (auto simp: process_file_def is_probably_binary_scandir Let_def fun_eq_iff
      split: option.splits)

text \<open>
  C8, amended: the walk skips a directory that cannot be listed and goes on, and the
  failure is counted nowhere: the candidates and the whole result of the run, counters
  included, are those of the same tree with that directory empty.
\<close>

theorem unreadable_directory_like_empty:
  assumes "scandir fs p = None"
  shows "candidates cfg (fs\<lparr>scandir := (scandir fs)(p \<mapsto> [])\<rparr>) = candidates cfg fs \<and>
     main cfg (fs\<lparr>scandir := (scandir fs)(p \<mapsto> [])\<rparr>) = main cfg fs"
proof -
  let ?fs = "fs\<lparr>scandir := (scandir fs)(p \<mapsto> [])\<rparr>"
  have c: "candidates cfg ?fs = candidates cfg fs"
    using assms by (simp add: candidates_def visit_unreadable_like_empty)
  then have "iter_files cfg ?fs = iter_files cfg fs"
    by (simp add: iter_files_def)
  then have "main cfg ?fs = main cfg fs"
    by (simp add: main_def process_file_scandir cong: option.case_cong)
  with c show ?thesis
    by simp
qed

text \<open>The witness: the tree above with \<open>secret\<close> listed as empty.\<close>

theorem unreadable_directory_like_empty_witness:
  "scandir locked_fs [''secret''] = None \<and>
   main default_config (locked_fs\<lparr>scandir := (scandir locked_fs)([''secret''] \<mapsto> [])\<rparr>) =
     Some \<lparr>written = 1, skipped_binary = 0, skipped_too_large = 0, skipped_errors = 0,
           opened = [[''main.rs''], [''main.rs'']], emitted = [[''main.rs'']]\<rparr>"
proof -
  have h: "scandir locked_fs [''secret''] = None"
    by (simp add: locked_fs_def)
  from unreadable_directory_like_empty [OF h, of default_config] locked_main h
  show ?thesis
    by simp
qed

end
